theory Spec2Isabelle
  imports Main "HOL-Library.Word"
begin

unbundle bit_operations_syntax

section \<open>Python values\<close>

text \<open>
  The module \<^verbatim>\<open>agentops/helpers.py\<close> works on arbitrary Python values. The values
  that its branches distinguish are modelled by one datatype:
  \<^item> \<^verbatim>\<open>None\<close>, \<^verbatim>\<open>bool\<close>, \<^verbatim>\<open>int\<close> (unbounded), \<^verbatim>\<open>float\<close>, \<^verbatim>\<open>str\<close>;
  \<^item> \<^verbatim>\<open>uuid.UUID\<close>, a 128-bit number;
  \<^item> \<^verbatim>\<open>Ellipsis\<close> (written \<^verbatim>\<open>...\<close>);
  \<^item> \<^verbatim>\<open>list\<close>, \<^verbatim>\<open>tuple\<close> and \<^verbatim>\<open>dict\<close> (an association list in insertion order);
  \<^item> any other object: the qualified name of its type and the attributes that
    \<^verbatim>\<open>hasattr\<close> can find on it, each with what calling it without arguments does.

  A float is kept as data only (no arithmetic is done on it here): a finite value
  \<open>m * 2 ^ e\<close> or one of the three non-finite values. Equality of values is HOL
  equality; Python's \<^verbatim>\<open>nan != nan\<close> is not modelled. A string is a list of bytes.
\<close>

datatype pyfloat = Finite int int | NaN | PosInf | NegInf

datatype uuid = UUID "128 word"

text \<open>
  Dictionary keys are hashable values; those the functions below tell apart. A float
  key carries the text that \<^verbatim>\<open>float.__repr__\<close> gives for it, which is what the encoder
  writes (the digits of a float are not computed here).
\<close>

datatype pykey = KStr string | KInt int | KBool bool | KNone | KUuid uuid | KFloat pyfloat string

datatype 'a outcome = Returns 'a | Raises

datatype pyval =
    PNone
  | PBool bool
  | PInt int
  | PFloat pyfloat
  | PStr string
  | PUuid uuid
  | PEllipsis
  | PList "pyval list"
  | PTuple "pyval list"
  | PDict "(pykey \<times> pyval) list"
  | PObj string "(string \<times> pyval outcome) list"

text \<open>
  Exceptions: the two that \<^verbatim>\<open>is_jsonable\<close> catches, \<^verbatim>\<open>ValueError\<close>, which it does not
  catch, and \<open>Raised\<close> for whatever foreign code (a probed method, a constructor)
  raises.
\<close>

datatype error = TypeError | OverflowError | ValueError | Raised

section \<open>The standard library: \<^verbatim>\<open>str(UUID)\<close> and \<^verbatim>\<open>json.dumps\<close>\<close>

definition hexdigit :: "nat \<Rightarrow> char" where
  "hexdigit n = ''0123456789abcdef'' ! (n mod 16)"

text \<open>\<^verbatim>\<open>'%032x' % self.int\<close>: the 32 hexadecimal digits, most significant first.\<close>

definition uuid_hex :: "uuid \<Rightarrow> string" where
  "uuid_hex u = (case u of UUID w \<Rightarrow>
     map (\<lambda>i. hexdigit (unat (drop_bit (4 * (31 - i)) w AND 15))) [0..<32])"

text \<open>\<^verbatim>\<open>str(u)\<close>: the canonical form 8-4-4-4-12.\<close>

definition uuid_str :: "uuid \<Rightarrow> string" where
  "uuid_str u = (let h = uuid_hex u in
     take 8 h @ ''-'' @ take 4 (drop 8 h) @ ''-'' @ take 4 (drop 12 h) @ ''-'' @
     take 4 (drop 16 h) @ ''-'' @ drop 20 h)"

text \<open>
  The document that \<^verbatim>\<open>json.dumps\<close> writes. The text it returns is the standard
  rendering of this document; with the default \<^verbatim>\<open>allow_nan=True\<close> a non-finite float is
  written as \<^verbatim>\<open>NaN\<close>, \<^verbatim>\<open>Infinity\<close> or \<^verbatim>\<open>-Infinity\<close>, which is not JSON.
\<close>

datatype json =
    JNull
  | JBool bool
  | JInt int
  | JFloat pyfloat
  | JString string
  | JArray "json list"
  | JObject "(string \<times> json) list"

fun valid_json :: "json \<Rightarrow> bool" where
  "valid_json (JFloat f) = (case f of Finite m e \<Rightarrow> True | _ \<Rightarrow> False)"
| "valid_json (JArray js) = list_all valid_json js"
| "valid_json (JObject ms) = list_all (\<lambda>(k, j). valid_json j) ms"
| "valid_json _ = True"

text \<open>Evaluating a list of results from left to right: the first exception wins.\<close>

primrec sequence :: "(error + 'a) list \<Rightarrow> error + 'a list" where
  "sequence [] = Inr []"
| "sequence (r # rs) =
     (case r of
        Inl e \<Rightarrow> Inl e
      | Inr x \<Rightarrow> (case sequence rs of Inl e \<Rightarrow> Inl e | Inr xs \<Rightarrow> Inr (x # xs)))"

function str_nat :: "nat \<Rightarrow> string" where
  "str_nat n = (if n < 10 then [hexdigit n] else str_nat (n div 10) @ [hexdigit (n mod 10)])"
  by pat_completeness auto
termination
  by (relation "measure id") auto

definition str_int :: "int \<Rightarrow> string" where
  "str_int i = (if i < 0 then ''-'' @ str_nat (nat (- i)) else str_nat (nat i))"

text \<open>
  The encoder writes an \<^verbatim>\<open>int\<close> with \<^verbatim>\<open>int.__repr__\<close>, which raises \<^verbatim>\<open>ValueError\<close>
  (\<^verbatim>\<open>Exceeds the limit (4300 digits) for integer string conversion\<close>) for an \<^verbatim>\<open>int\<close> of
  more than \<^verbatim>\<open>sys.get_int_max_str_digits()\<close> decimal digits; 4300 is the default.
  \<^verbatim>\<open>10 ** 4300\<close> is the least such number.
\<close>

definition int_max_str_digits :: nat where
  "int_max_str_digits = 4300"

definition exceeds_limit :: "int \<Rightarrow> bool" where
  "exceeds_limit i = (10 ^ int_max_str_digits \<le> \<bar>i\<bar>)"

text \<open>
  A dictionary key in the encoder: \<^verbatim>\<open>str\<close> as it is, \<^verbatim>\<open>int\<close> in decimal (within the limit
  of digits), \<^verbatim>\<open>float\<close> by its \<^verbatim>\<open>repr\<close>, \<^verbatim>\<open>True\<close>, \<^verbatim>\<open>False\<close> and \<^verbatim>\<open>None\<close> as \<^verbatim>\<open>true\<close>,
  \<^verbatim>\<open>false\<close> and \<^verbatim>\<open>null\<close>; any other key raises \<^verbatim>\<open>TypeError\<close> (the \<^verbatim>\<open>default\<close> hook is
  never asked about a key).
\<close>

fun json_key :: "pykey \<Rightarrow> error + string" where
  "json_key (KStr s) = Inr s"
| "json_key (KInt i) = (if exceeds_limit i then Inl ValueError else Inr (str_int i))"
| "json_key (KBool b) = Inr (if b then ''true'' else ''false'')"
| "json_key KNone = Inr ''null''"
| "json_key (KUuid u) = Inl TypeError"
| "json_key (KFloat f r) = Inr r"

definition json_item :: "pykey \<Rightarrow> error + json \<Rightarrow> error + string \<times> json" where
  "json_item k r =
     (case json_key k of
        Inl e \<Rightarrow> Inl e
      | Inr s \<Rightarrow> (case r of Inl e \<Rightarrow> Inl e | Inr j \<Rightarrow> Inr (s, j)))"

definition json_array :: "(error + json) list \<Rightarrow> error + json" where
  "json_array rs = (case sequence rs of Inl e \<Rightarrow> Inl e | Inr js \<Rightarrow> Inr (JArray js))"

definition json_object :: "(error + string \<times> json) list \<Rightarrow> error + json" where
  "json_object rs = (case sequence rs of Inl e \<Rightarrow> Inl e | Inr ms \<Rightarrow> Inr (JObject ms))"

text \<open>
  \<^verbatim>\<open>json.dumps(x)\<close> with no \<^verbatim>\<open>default\<close>: a value of any type but the native ones raises
  \<^verbatim>\<open>TypeError\<close>, and an \<^verbatim>\<open>int\<close> over the limit of digits raises \<^verbatim>\<open>ValueError\<close>. A tuple is
  written as an array.
\<close>

fun json_dumps :: "pyval \<Rightarrow> error + json" where
  "json_dumps PNone = Inr JNull"
| "json_dumps (PBool b) = Inr (JBool b)"
| "json_dumps (PInt i) = (if exceeds_limit i then Inl ValueError else Inr (JInt i))"
| "json_dumps (PFloat f) = Inr (JFloat f)"
| "json_dumps (PStr s) = Inr (JString s)"
| "json_dumps (PList xs) = json_array (map json_dumps xs)"
| "json_dumps (PTuple xs) = json_array (map json_dumps xs)"
| "json_dumps (PDict kvs) = json_object (map (\<lambda>(k, v). json_item k (json_dumps v)) kvs)"
| "json_dumps (PUuid u) = Inl TypeError"
| "json_dumps PEllipsis = Inl TypeError"
| "json_dumps (PObj q ms) = Inl TypeError"

section \<open>\<^verbatim>\<open>is_jsonable\<close> and \<^verbatim>\<open>filter_unjsonable\<close>\<close>

text \<open>
  \<^verbatim>\<open>
  def is_jsonable(x):
      try:
          json.dumps(x)
          return True
      except (TypeError, OverflowError):
          return False
  \<close>
  Any other exception leaves the function: the \<^verbatim>\<open>ValueError\<close> of an \<^verbatim>\<open>int\<close> over the limit
  of digits does.
\<close>

definition is_jsonable :: "pyval \<Rightarrow> error + bool" where
  "is_jsonable x =
     (case json_dumps x of
        Inr j \<Rightarrow> Inr True
      | Inl TypeError \<Rightarrow> Inr False
      | Inl OverflowError \<Rightarrow> Inr False
      | Inl e \<Rightarrow> Inl e)"

fun is_container :: "pyval \<Rightarrow> bool" where
  "is_container (PDict kvs) = True"
| "is_container (PList xs) = True"
| "is_container _ = False"

fun is_uuid :: "pyval \<Rightarrow> bool" where
  "is_uuid (PUuid u) = True"
| "is_uuid _ = False"

text \<open>\<^verbatim>\<open>str(v)\<close>, used by the source on UUID values only.\<close>

fun py_str_uuid :: "pyval \<Rightarrow> string" where
  "py_str_uuid (PUuid u) = uuid_str u"
| "py_str_uuid _ = []"

text \<open>
  The element policy that the source writes twice, for dictionary values and for list
  elements:
  \<^verbatim>\<open>
  filter_dict(v) if isinstance(v, (dict, list)) or is_jsonable(v)
  else str(v) if isinstance(v, UUID) else ""
  \<close>
  \<open>rec\<close> is the result of the recursive call, evaluated only in the first branch.
\<close>

definition filter_item :: "pyval \<Rightarrow> (error + pyval) \<Rightarrow> error + pyval" where
  "filter_item v rec =
     (if is_container v then rec
      else (case is_jsonable v of
              Inl e \<Rightarrow> Inl e
            | Inr True \<Rightarrow> rec
            | Inr False \<Rightarrow> Inr (if is_uuid v then PStr (py_str_uuid v) else PStr '''')))"

definition dict_entry :: "pykey \<Rightarrow> error + pyval \<Rightarrow> error + pykey \<times> pyval" where
  "dict_entry k r = (case r of Inl e \<Rightarrow> Inl e | Inr v \<Rightarrow> Inr (k, v))"

definition mk_dict :: "(error + pykey \<times> pyval) list \<Rightarrow> error + pyval" where
  "mk_dict rs = (case sequence rs of Inl e \<Rightarrow> Inl e | Inr kvs \<Rightarrow> Inr (PDict kvs))"

definition mk_list :: "(error + pyval) list \<Rightarrow> error + pyval" where
  "mk_list rs = (case sequence rs of Inl e \<Rightarrow> Inl e | Inr xs \<Rightarrow> Inr (PList xs))"

fun filter_dict :: "pyval \<Rightarrow> error + pyval" where
  "filter_dict (PDict kvs) =
     mk_dict (map (\<lambda>(k, v). dict_entry k (filter_item v (filter_dict v))) kvs)"
| "filter_dict (PList xs) =
     mk_list (map (\<lambda>x. filter_item x (filter_dict x)) xs)"
| "filter_dict obj =
     (case is_jsonable obj of
        Inl e \<Rightarrow> Inl e
      | Inr j \<Rightarrow> Inr (if j \<or> is_uuid obj then obj else PStr ''''))"

definition filter_unjsonable :: "pyval \<Rightarrow> error + pyval" where
  "filter_unjsonable d = filter_dict d"

section \<open>\<^verbatim>\<open>safe_serialize\<close>\<close>

text \<open>
  What \<^verbatim>\<open>hasattr(o, name)\<close>, \<^verbatim>\<open>o.name()\<close> and \<^verbatim>\<open>type(o).__qualname__\<close> give. The
  built-in values have none of the five probed attributes. Calling an attribute that
  is not callable raises, as a method that raises does.
\<close>

fun hasattr :: "pyval \<Rightarrow> string \<Rightarrow> bool" where
  "hasattr (PObj q ms) name = (name \<in> set (map fst ms))"
| "hasattr _ name = False"

fun call_method :: "pyval \<Rightarrow> string \<Rightarrow> error + pyval" where
  "call_method (PObj q ms) name =
     (case map_of ms name of
        Some (Returns v) \<Rightarrow> Inr v
      | Some Raises \<Rightarrow> Inl Raised
      | None \<Rightarrow> Inl Raised)"
| "call_method _ name = Inl Raised"

fun qualname :: "pyval \<Rightarrow> string" where
  "qualname PNone = ''NoneType''"
| "qualname (PBool b) = ''bool''"
| "qualname (PInt i) = ''int''"
| "qualname (PFloat f) = ''float''"
| "qualname (PStr s) = ''str''"
| "qualname (PUuid u) = ''UUID''"
| "qualname PEllipsis = ''ellipsis''"
| "qualname (PList xs) = ''list''"
| "qualname (PTuple xs) = ''tuple''"
| "qualname (PDict kvs) = ''dict''"
| "qualname (PObj q ms) = q"

text \<open>
  \<^verbatim>\<open>
  def default(o):
      if isinstance(o, UUID):
          return str(o)
      elif hasattr(o, "model_dump_json"):
          return o.model_dump_json()
      elif hasattr(o, "to_json"):
          return o.to_json()
      elif hasattr(o, "json"):
          return o.json()
      elif hasattr(o, "to_dict"):
          return o.to_dict()
      elif hasattr(o, "dict"):
          return o.dict()
      else:
          return f"<<non-serializable: {type(o).__qualname__}>>"
  \<close>
\<close>

definition default :: "pyval \<Rightarrow> error + pyval" where
  "default o' =
     (if is_uuid o' then Inr (PStr (py_str_uuid o'))
      else if hasattr o' ''model_dump_json'' then call_method o' ''model_dump_json''
      else if hasattr o' ''to_json'' then call_method o' ''to_json''
      else if hasattr o' ''json'' then call_method o' ''json''
      else if hasattr o' ''to_dict'' then call_method o' ''to_dict''
      else if hasattr o' ''dict'' then call_method o' ''dict''
      else Inr (PStr (''<<non-serializable: '' @ qualname o' @ ''>>'')))"

text \<open>
  \<^verbatim>\<open>json.dumps(x, default=default)\<close>: the encoder asks \<open>default\<close> about every value
  that is not of a native type and encodes what it returns, asking again where that is
  needed. A value is a finite tree, so what a method returns is smaller than the object
  that has the method: \<open>rank\<close> measures it.
\<close>

fun rank :: "pyval \<Rightarrow> nat" where
  "rank (PList xs) = Suc (sum_list (map rank xs))"
| "rank (PTuple xs) = Suc (sum_list (map rank xs))"
| "rank (PDict kvs) = Suc (sum_list (map (\<lambda>(k, v). rank v) kvs))"
| "rank (PObj q ms) =
     Suc (sum_list (map (\<lambda>(n, r). case r of Returns v \<Rightarrow> rank v | Raises \<Rightarrow> 0) ms))"
| "rank (PUuid u) = 1"
| "rank PEllipsis = 1"
| "rank _ = 0"

function json_dumps_default :: "pyval \<Rightarrow> error + json" where
  "json_dumps_default PNone = Inr JNull"
| "json_dumps_default (PBool b) = Inr (JBool b)"
| "json_dumps_default (PInt i) = (if exceeds_limit i then Inl ValueError else Inr (JInt i))"
| "json_dumps_default (PFloat f) = Inr (JFloat f)"
| "json_dumps_default (PStr s) = Inr (JString s)"
| "json_dumps_default (PList xs) = json_array (map json_dumps_default xs)"
| "json_dumps_default (PTuple xs) = json_array (map json_dumps_default xs)"
| "json_dumps_default (PDict kvs) =
     json_object (map (\<lambda>(k, v). json_item k (json_dumps_default v)) kvs)"
| "json_dumps_default (PUuid u) =
     (case default (PUuid u) of Inl e \<Rightarrow> Inl e | Inr v \<Rightarrow> json_dumps_default v)"
| "json_dumps_default PEllipsis =
     (case default PEllipsis of Inl e \<Rightarrow> Inl e | Inr v \<Rightarrow> json_dumps_default v)"
| "json_dumps_default (PObj q ms) =
     (case default (PObj q ms) of Inl e \<Rightarrow> Inl e | Inr v \<Rightarrow> json_dumps_default v)"
  by pat_completeness auto
termination
proof (relation "measure rank")
  show "wf (measure rank)" by simp
next
  fix xs :: "pyval list" and x
  assume "x \<in> set xs"
  then have "rank x \<le> sum_list (map rank xs)"
    by (induction xs) auto
  then show "(x, PList xs) \<in> measure rank" by simp
  show "(x, PTuple xs) \<in> measure rank"
    using \<open>rank x \<le> sum_list (map rank xs)\<close> by simp
next
  fix kvs :: "(pykey \<times> pyval) list" and kv k v
  assume "kv \<in> set kvs" "(k, v) = kv"
  then have "(k, v) \<in> set kvs" by simp
  then have "rank v \<le> sum_list (map (\<lambda>(k, v). rank v) kvs)"
    by (induction kvs) auto
  then show "(v, PDict kvs) \<in> measure rank" by simp
next
  fix u v
  assume "default (PUuid u) = Inr v"
  then show "(v, PUuid u) \<in> measure rank" by (auto simp: default_def)
next
  fix v
  assume "default PEllipsis = Inr v"
  then show "(v, PEllipsis) \<in> measure rank" by (auto simp: default_def)
next
  fix q and ms :: "(string \<times> pyval outcome) list" and v
  have mem: "rank v \<le> sum_list (map (\<lambda>(n, r). case r of Returns v \<Rightarrow> rank v | Raises \<Rightarrow> 0) ms)"
    if "map_of ms n = Some (Returns v)" for n
    using that by (induction ms) (auto split: if_splits)
  assume "default (PObj q ms) = Inr v"
  then show "(v, PObj q ms) \<in> measure rank"
    by (auto simp: default_def le_imp_less_Suc split: if_splits option.splits outcome.splits dest!: mem)
qed

text \<open>
  \<^verbatim>\<open>
  def remove_unwanted_items(value):
      if isinstance(value, dict):
          return {
              k: remove_unwanted_items(v)
              for k, v in value.items()
              if v is not None and v is not ... and k != "self"
          }
      elif isinstance(value, list):
          return [remove_unwanted_items(item) for item in value]
      else:
          return value
  \<close>
\<close>

definition wanted :: "pykey \<times> pyval \<Rightarrow> bool" where
  "wanted kv = (case kv of (k, v) \<Rightarrow> v \<noteq> PNone \<and> v \<noteq> PEllipsis \<and> k \<noteq> KStr ''self'')"

fun remove_unwanted_items :: "pyval \<Rightarrow> pyval" where
  "remove_unwanted_items (PDict kvs) =
     PDict (map (\<lambda>(k, v). (k, remove_unwanted_items v)) (filter wanted kvs))"
| "remove_unwanted_items (PList xs) = PList (map remove_unwanted_items xs)"
| "remove_unwanted_items v = v"

definition safe_serialize :: "pyval \<Rightarrow> error + json" where
  "safe_serialize obj = (let cleaned_obj = remove_unwanted_items obj in json_dumps_default cleaned_obj)"

section \<open>The instance registry\<close>

text \<open>
  The arguments of a call, \<^verbatim>\<open>*args\<close> and \<^verbatim>\<open>**kwargs\<close>. A class is its identity (the
  key of the registry) and its constructor, which returns or raises on given
  arguments. An instance remembers its class and the arguments it was built with; an
  object's identity is its index in the heap, so a new object is distinct from every
  older one.
\<close>

record args =
  pos_args :: "pyval list"
  kw_args :: "(string \<times> pyval) list"

record pyclass =
  class_id :: nat
  init_ok :: "args \<Rightarrow> bool"

record pyinstance =
  inst_class :: nat
  inst_args :: args

record world =
  ao_instances :: "nat \<rightharpoonup> nat"
  heap :: "pyinstance list"

text \<open>\<^verbatim>\<open>class_(*args, **kwargs)\<close>\<close>

definition construct :: "pyclass \<Rightarrow> args \<Rightarrow> world \<Rightarrow> (error + nat) \<times> world" where
  "construct cls a w =
     (if init_ok cls a
      then (Inr (length (heap w)),
            w\<lparr>heap := heap w @ [\<lparr>inst_class = class_id cls, inst_args = a\<rparr>]\<rparr>)
      else (Inl Raised, w))"

text \<open>
  \<^verbatim>\<open>
  def getinstance(*args, **kwargs):
      if cls not in ao_instances:
          ao_instances[cls] = cls(*args, **kwargs)
      return ao_instances[cls]
  \<close>
\<close>

definition singleton :: "pyclass \<Rightarrow> args \<Rightarrow> world \<Rightarrow> (error + nat) \<times> world" where
  "singleton cls a w =
     (case ao_instances w (class_id cls) of
        Some r \<Rightarrow> (Inr r, w)
      | None \<Rightarrow>
          (case construct cls a w of
             (Inl e, w') \<Rightarrow> (Inl e, w')
           | (Inr r, w') \<Rightarrow>
               (Inr r, w'\<lparr>ao_instances := (ao_instances w')(class_id cls \<mapsto> r)\<rparr>)))"

text \<open>Python's truth value of \<^verbatim>\<open>use_singleton\<close>.\<close>

fun truthy :: "pyval \<Rightarrow> bool" where
  "truthy PNone = False"
| "truthy (PBool b) = b"
| "truthy (PInt i) = (i \<noteq> 0)"
| "truthy (PFloat f) = (case f of Finite m e \<Rightarrow> m \<noteq> 0 | _ \<Rightarrow> True)"
| "truthy (PStr s) = (s \<noteq> [])"
| "truthy (PList xs) = (xs \<noteq> [])"
| "truthy (PTuple xs) = (xs \<noteq> [])"
| "truthy (PDict kvs) = (kvs \<noteq> [])"
| "truthy _ = True"

text \<open>\<^verbatim>\<open>kwargs.pop(name, default)\<close>: the value, and the arguments without the keyword.\<close>

definition kwargs_pop :: "args \<Rightarrow> string \<Rightarrow> pyval \<Rightarrow> pyval \<times> args" where
  "kwargs_pop a name dflt =
     (case map_of (kw_args a) name of
        None \<Rightarrow> (dflt, a)
      | Some v \<Rightarrow> (v, a\<lparr>kw_args := filter (\<lambda>(k, x). k \<noteq> name) (kw_args a)\<rparr>))"

text \<open>
  \<^verbatim>\<open>
  def getinstance(*args, **kwargs):
      use_singleton = kwargs.pop("use_singleton", True)
      if use_singleton:
          if cls not in ao_instances:
              ao_instances[cls] = cls(*args, **kwargs)
          return ao_instances[cls]
      else:
          return cls(*args, **kwargs)
  \<close>
\<close>

definition conditional_singleton :: "pyclass \<Rightarrow> args \<Rightarrow> world \<Rightarrow> (error + nat) \<times> world" where
  "conditional_singleton cls a w =
     (case kwargs_pop a ''use_singleton'' (PBool True) of
        (use_singleton, a') \<Rightarrow>
          if truthy use_singleton then
            (case ao_instances w (class_id cls) of
               Some r \<Rightarrow> (Inr r, w)
             | None \<Rightarrow>
                 (case construct cls a' w of
                    (Inl e, w') \<Rightarrow> (Inl e, w')
                  | (Inr r, w') \<Rightarrow>
                      (Inr r, w'\<lparr>ao_instances := (ao_instances w')(class_id cls \<mapsto> r)\<rparr>)))
          else construct cls a' w)"

text \<open>
  \<^verbatim>\<open>
  def clear_singletons():
      global ao_instances
      ao_instances = {}
  \<close>
\<close>

definition clear_singletons :: "world \<Rightarrow> world" where
  "clear_singletons w = w\<lparr>ao_instances := Map.empty\<rparr>"

text \<open>The module when it has just been imported: \<^verbatim>\<open>ao_instances = {}\<close>.\<close>

definition init_world :: world where
  "init_world = \<lparr>ao_instances = Map.empty, heap = []\<rparr>"

text \<open>A program's registry calls, run in order (an exception is caught by the caller).\<close>

datatype call = Singleton pyclass args | Conditional pyclass args | Clear

fun step :: "call \<Rightarrow> world \<Rightarrow> world" where
  "step (Singleton c a) w = snd (singleton c a w)"
| "step (Conditional c a) w = snd (conditional_singleton c a w)"
| "step Clear w = clear_singletons w"

definition run :: "call list \<Rightarrow> world \<Rightarrow> world" where
  "run cs w = fold step cs w"

section \<open>Predicates of the specification\<close>


text \<open>
  A key that the encoder accepts: \<^verbatim>\<open>str\<close>, \<^verbatim>\<open>int\<close> within the limit of digits, \<^verbatim>\<open>float\<close>,
  \<^verbatim>\<open>bool\<close> or \<^verbatim>\<open>None\<close>.
\<close>

definition encodable_key :: "pykey \<Rightarrow> bool" where
  "encodable_key k = (case json_key k of Inl e \<Rightarrow> False | Inr s \<Rightarrow> True)"


text \<open>
  Every dictionary that is reached from the value through dictionary values and list
  elements has no entry that the strip phase removes.
\<close>

fun stripped :: "pyval \<Rightarrow> bool" where
  "stripped (PDict kvs) = list_all (\<lambda>(k, v). wanted (k, v) \<and> stripped v) kvs"
| "stripped (PList xs) = list_all stripped xs"
| "stripped v = True"

text \<open>
  No \<^verbatim>\<open>int\<close> in the value has more than 4300 decimal digits: none that is the value
  itself, an element of a list or a tuple, or a key or a value of a dictionary, at any
  depth. (The encoder without \<^verbatim>\<open>default\<close> stops at any other object.)
\<close>

fun key_within_limit :: "pykey \<Rightarrow> bool" where
  "key_within_limit (KInt i) = (\<not> exceeds_limit i)"
| "key_within_limit k = True"

fun ints_within_limit :: "pyval \<Rightarrow> bool" where
  "ints_within_limit (PInt i) = (\<not> exceeds_limit i)"
| "ints_within_limit (PList xs) = list_all ints_within_limit xs"
| "ints_within_limit (PTuple xs) = list_all ints_within_limit xs"
| "ints_within_limit (PDict kvs) =
     list_all (\<lambda>(k, v). key_within_limit k \<and> ints_within_limit v) kvs"
| "ints_within_limit v = True"

text \<open>
  A value composed only of primitives (an \<^verbatim>\<open>int\<close> within the limit of digits, a float
  being finite), lists, tuples, dictionaries with keys that the encoder accepts, and
  UUID values.
\<close>

fun plain_data :: "pyval \<Rightarrow> bool" where
  "plain_data PNone = True"
| "plain_data (PBool b) = True"
| "plain_data (PInt i) = (\<not> exceeds_limit i)"
| "plain_data (PFloat f) = (case f of Finite m e \<Rightarrow> True | _ \<Rightarrow> False)"
| "plain_data (PStr s) = True"
| "plain_data (PUuid u) = True"
| "plain_data (PList xs) = list_all plain_data xs"
| "plain_data (PTuple xs) = list_all plain_data xs"
| "plain_data (PDict kvs) = list_all (\<lambda>(k, v). encodable_key k \<and> plain_data v) kvs"
| "plain_data PEllipsis = False"
| "plain_data (PObj q ms) = False"

text \<open>Every instance that the registry holds is an object of the heap.\<close>

definition wf_world :: "world \<Rightarrow> bool" where
  "wf_world w = (\<forall>r \<in> ran (ao_instances w). r < length (heap w))"

section \<open>Properties of \<^verbatim>\<open>filter_unjsonable\<close>\<close>

lemma sequence_map_Inr:
  "sequence (map f xs) = Inr ys \<longleftrightarrow> list_all2 (\<lambda>x y. f x = Inr y) xs ys"
proof (induction xs arbitrary: ys)
  case Nil
  then show ?case by auto
next
  case (Cons x xs)
  show ?case
  proof (cases "f x")
    case (Inl e)
    then show ?thesis by (cases ys) auto
  next
    case (Inr y)
    then show ?thesis using Cons.IH
      by (cases ys; cases "sequence (map f xs)") auto
  qed
qed

lemma sequence_map_Inl:
  "sequence (map f xs) = Inl e \<Longrightarrow> \<exists>x \<in> set xs. f x = Inl e"
  by (induction xs) (auto split: sum.splits)

lemma sequence_map_total:
  assumes "\<And>x. x \<in> set xs \<Longrightarrow> \<exists>y. f x = Inr y"
  shows "\<exists>ys. sequence (map f xs) = Inr ys"
proof (cases "sequence (map f xs)")
  case (Inl e)
  then obtain x where "x \<in> set xs" "f x = Inl e"
    using sequence_map_Inl by blast
  with assms show ?thesis by fastforce
next
  case (Inr ys)
  then show ?thesis by blast
qed

text \<open>The limit of digits: small numbers are within it, \<^verbatim>\<open>10 ** 4300\<close> is not.\<close>

lemma exceeds_limit_small [simp]: "\<bar>i\<bar> < 10 \<Longrightarrow> \<not> exceeds_limit i"
proof -
  assume small: "\<bar>i\<bar> < 10"
  have "(10::int) ^ 1 \<le> 10 ^ int_max_str_digits"
    by (rule power_increasing) (simp_all add: int_max_str_digits_def)
  with small show ?thesis by (simp add: exceeds_limit_def)
qed

lemma exceeds_limit_power [simp]: "exceeds_limit (10 ^ int_max_str_digits)"
  by (simp add: exceeds_limit_def)

lemma json_key_error: "key_within_limit k \<Longrightarrow> json_key k = Inl e \<Longrightarrow> e = TypeError"
  by (cases k) (auto split: if_splits)

text \<open>Within the limit of digits, the encoder without \<^verbatim>\<open>default\<close> raises \<^verbatim>\<open>TypeError\<close> only.\<close>

lemma json_dumps_error: "ints_within_limit x \<Longrightarrow> json_dumps x = Inl e \<Longrightarrow> e = TypeError"
proof (induction x arbitrary: e rule: json_dumps.induct)
  case (6 xs)
  from "6.prems"(2) obtain x where x: "x \<in> set xs" "json_dumps x = Inl e"
    by (auto simp: json_array_def split: sum.splits dest: sequence_map_Inl)
  from "6.prems"(1) x(1) have "ints_within_limit x" by (simp add: list_all_iff)
  with x show ?case using "6.IH" by blast
next
  case (7 xs)
  from "7.prems"(2) obtain x where x: "x \<in> set xs" "json_dumps x = Inl e"
    by (auto simp: json_array_def split: sum.splits dest: sequence_map_Inl)
  from "7.prems"(1) x(1) have "ints_within_limit x" by (simp add: list_all_iff)
  with x show ?case using "7.IH" by blast
next
  case (8 kvs)
  from "8.prems"(2) obtain k v where kv: "(k, v) \<in> set kvs" "json_item k (json_dumps v) = Inl e"
    by (auto simp: json_object_def split: sum.splits dest!: sequence_map_Inl)
  from "8.prems"(1) kv(1) have lim: "key_within_limit k" "ints_within_limit v"
    by (auto simp: list_all_iff)
  show ?case
  proof (cases "json_key k")
    case (Inl e')
    with kv(2) have "e' = e" by (simp add: json_item_def)
    with Inl lim(1) show ?thesis by (auto dest: json_key_error)
  next
    case (Inr s)
    with kv have "json_dumps v = Inl e" by (auto simp: json_item_def split: sum.splits)
    with kv(1) lim(2) "8.IH" show ?thesis by blast
  qed
qed (simp_all split: if_splits)

lemma is_jsonable_eq: "ints_within_limit x \<Longrightarrow> is_jsonable x = Inr (\<not> isl (json_dumps x))"
proof (cases "json_dumps x")
  case (Inl e)
  assume "ints_within_limit x"
  then have "e = TypeError" using Inl by (rule json_dumps_error)
  with Inl show ?thesis by (simp add: is_jsonable_def)
next
  case (Inr j)
  then show ?thesis by (simp add: is_jsonable_def)
qed

text \<open>Whenever the probe returns, it says whether the encoder succeeds.\<close>

lemma is_jsonable_InrD: "is_jsonable x = Inr b \<Longrightarrow> b = (\<not> isl (json_dumps x))"
proof (cases "json_dumps x")
  case (Inl e)
  assume "is_jsonable x = Inr b"
  with Inl show ?thesis by (cases e) (simp_all add: is_jsonable_def)
next
  case (Inr j)
  assume "is_jsonable x = Inr b"
  with Inr show ?thesis by (simp add: is_jsonable_def)
qed

lemma filter_dict_leaf_eq:
  "\<not> is_container x \<Longrightarrow>
   filter_dict x =
     (case is_jsonable x of
        Inl e \<Rightarrow> Inl e
      | Inr j \<Rightarrow> Inr (if j \<or> is_uuid x then x else PStr []))"
  by (cases "is_jsonable x"; cases x) simp_all

lemma filter_dict_leaf:
  assumes "\<not> is_container x" and "filter_dict x = Inr y"
  shows "y = (if \<not> isl (json_dumps x) \<or> is_uuid x then x else PStr [])"
proof -
  from assms obtain j where j: "is_jsonable x = Inr j"
    and y: "y = (if j \<or> is_uuid x then x else PStr [])"
    by (cases "is_jsonable x") (simp_all add: filter_dict_leaf_eq)
  from is_jsonable_InrD [OF j] y show ?thesis by simp
qed

lemma filter_item_container: "is_container v \<Longrightarrow> filter_item v r = r"
  by (simp add: filter_item_def)

lemma filter_item_leaf:
  assumes "\<not> is_container v" and "filter_item v (filter_dict v) = Inr v'"
  shows "v' = (if \<not> isl (json_dumps v) then v
          else if is_uuid v then PStr (py_str_uuid v) else PStr [])"
proof -
  from assms obtain j where j: "is_jsonable v = Inr j"
    by (cases "is_jsonable v") (simp_all add: filter_item_def)
  have jj: "j = (\<not> isl (json_dumps v))" by (rule is_jsonable_InrD [OF j])
  show ?thesis
  proof (cases j)
    case True
    with assms j have "filter_dict v = Inr v'" by (simp add: filter_item_def)
    from filter_dict_leaf [OF assms(1) this] True jj show ?thesis by simp
  next
    case False
    with assms j have "v' = (if is_uuid v then PStr (py_str_uuid v) else PStr [])"
      by (simp add: filter_item_def)
    with False jj show ?thesis by simp
  qed
qed

lemma filter_dict_str: "filter_dict (PStr s) = Inr (PStr s)"
  by (simp add: is_jsonable_def)

lemma filter_item_str: "filter_item (PStr s) (filter_dict (PStr s)) = Inr (PStr s)"
  by (simp add: filter_item_def is_jsonable_def)

text \<open>Within the limit of digits, \<open>filter_dict\<close> returns.\<close>

lemma filter_item_total: "ints_within_limit v \<Longrightarrow> \<exists>r. filter_item v (Inr y) = Inr r"
  by (cases "isl (json_dumps v)") (simp_all add: filter_item_def is_jsonable_eq)

lemma filter_dict_total: "ints_within_limit x \<Longrightarrow> \<exists>y. filter_dict x = Inr y"
proof (induction x rule: filter_dict.induct)
  case (1 kvs)
  let ?f = "\<lambda>(k, v). dict_entry k (filter_item v (filter_dict v))"
  have "\<exists>r. ?f kv = Inr r" if "kv \<in> set kvs" for kv
  proof -
    obtain k v where kv: "kv = (k, v)" by (cases kv)
    with that have mem: "(k, v) \<in> set kvs" by simp
    with "1.prems" have lim: "ints_within_limit v" by (auto simp: list_all_iff)
    with "1.IH" [of "(k, v)" k v] mem obtain y where y: "filter_dict v = Inr y" by auto
    from filter_item_total [OF lim, of y] obtain r where "filter_item v (Inr y) = Inr r" ..
    with y show ?thesis by (simp add: kv dict_entry_def)
  qed
  then have "\<exists>ys. sequence (map ?f kvs) = Inr ys"
    by (rule sequence_map_total)
  then show ?case by (auto simp: mk_dict_def)
next
  case (2 xs)
  let ?f = "\<lambda>x. filter_item x (filter_dict x)"
  have "\<exists>r. ?f x = Inr r" if "x \<in> set xs" for x
  proof -
    from that "2.prems" have lim: "ints_within_limit x" by (simp add: list_all_iff)
    with "2.IH" [OF that] obtain y where y: "filter_dict x = Inr y" by auto
    from filter_item_total [OF lim, of y] obtain r where "filter_item x (Inr y) = Inr r" ..
    with y show ?thesis by simp
  qed
  then have "\<exists>ys. sequence (map ?f xs) = Inr ys"
    by (rule sequence_map_total)
  then show ?case by (auto simp: mk_list_def)
qed (simp_all add: is_jsonable_eq)

lemma list_all2_rightD:
  "list_all2 P xs ys \<Longrightarrow> y \<in> set ys \<Longrightarrow> \<exists>x \<in> set xs. P x y"
  by (induction rule: list_all2_induct) auto

lemma filter_dict_container:
  "filter_dict x = Inr y \<Longrightarrow> is_container y = is_container x"
proof (cases "is_container x")
  case False
  assume "filter_dict x = Inr y"
  from filter_dict_leaf [OF False this] False show ?thesis by (auto split: if_splits)
next
  case True
  assume fd: "filter_dict x = Inr y"
  from True consider kvs where "x = PDict kvs" | xs where "x = PList xs"
    by (cases x) auto
  then have "is_container y"
  proof cases
    case 1
    with fd show ?thesis by (auto simp: mk_dict_def split: sum.splits)
  next
    case 2
    with fd show ?thesis by (auto simp: mk_list_def split: sum.splits)
  qed
  with True show ?thesis by simp
qed

lemma filter_dict_leaf_fixed:
  assumes "\<not> is_container x" and "filter_dict x = Inr y"
  shows "filter_dict y = Inr y"
proof (cases "\<not> isl (json_dumps x) \<or> is_uuid x")
  case True
  with filter_dict_leaf [OF assms] have "y = x" by simp
  with assms(2) show ?thesis by simp
next
  case False
  with filter_dict_leaf [OF assms] have "y = PStr []" by simp
  then show ?thesis by (simp only: filter_dict_str)
qed

text \<open>A value that the element policy leaves as it is.\<close>

lemma filter_item_fixed:
  assumes "filter_item v (filter_dict v) = Inr v'"
    and "\<And>y. is_container v \<Longrightarrow> filter_dict v = Inr y \<Longrightarrow> filter_dict y = Inr y"
  shows "filter_item v' (filter_dict v') = Inr v'"
proof (cases "is_container v")
  case True
  with assms(1) have fd: "filter_dict v = Inr v'" by (simp add: filter_item_container)
  with True have "is_container v'" using filter_dict_container by blast
  moreover have "filter_dict v' = Inr v'" using assms(2) True fd by blast
  ultimately show ?thesis by (simp add: filter_item_container)
next
  case False
  show ?thesis
  proof (cases "isl (json_dumps v)")
    case True
    with filter_item_leaf [OF False assms(1)] obtain s where "v' = PStr s"
      by (auto split: if_splits)
    then show ?thesis by (simp only: filter_item_str)
  next
    case nl: False
    with filter_item_leaf [OF False assms(1)] have "v' = v" by simp
    with assms(1) show ?thesis by simp
  qed
qed

lemma filter_dict_fixed: "filter_dict x = Inr y \<Longrightarrow> filter_dict y = Inr y"
proof (induction x arbitrary: y rule: filter_dict.induct)
  case (1 kvs)
  let ?f = "\<lambda>(k, v). dict_entry k (filter_item v (filter_dict v))"
  from "1.prems" obtain kvs' where y: "y = PDict kvs'" and sq: "sequence (map ?f kvs) = Inr kvs'"
    by (auto simp: mk_dict_def split: sum.splits)
  then have l2: "list_all2 (\<lambda>kv kv'. ?f kv = Inr kv') kvs kvs'"
    by (simp add: sequence_map_Inr)
  have "?f kv' = Inr kv'" if "kv' \<in> set kvs'" for kv'
  proof -
    from list_all2_rightD [OF l2 that] obtain kv where kv: "kv \<in> set kvs" "?f kv = Inr kv'"
      by blast
    obtain k v where kv_eq: "kv = (k, v)" by (cases kv)
    from kv(2) obtain v' where v': "kv' = (k, v')" "filter_item v (filter_dict v) = Inr v'"
      by (auto simp: kv_eq dict_entry_def split: sum.splits)
    have "filter_item v' (filter_dict v') = Inr v'"
    proof (rule filter_item_fixed [OF v'(2)])
      fix z assume "is_container v" "filter_dict v = Inr z"
      then show "filter_dict z = Inr z"
        using "1.IH" kv(1) kv_eq by blast
    qed
    then show ?thesis by (simp add: v' dict_entry_def)
  qed
  then have "list_all2 (\<lambda>kv kv'. ?f kv = Inr kv') kvs' kvs'"
    by (simp add: list_all2_same)
  then have "sequence (map ?f kvs') = Inr kvs'"
    by (simp only: sequence_map_Inr)
  then show ?case by (simp add: y mk_dict_def)
next
  case (2 xs)
  let ?f = "\<lambda>x. filter_item x (filter_dict x)"
  from "2.prems" obtain xs' where y: "y = PList xs'" and sq: "sequence (map ?f xs) = Inr xs'"
    by (auto simp: mk_list_def split: sum.splits)
  then have l2: "list_all2 (\<lambda>x x'. ?f x = Inr x') xs xs'"
    by (simp add: sequence_map_Inr)
  have "?f x' = Inr x'" if "x' \<in> set xs'" for x'
  proof -
    from list_all2_rightD [OF l2 that] obtain x where x: "x \<in> set xs" "?f x = Inr x'"
      by blast
    show ?thesis
    proof (rule filter_item_fixed [OF x(2)])
      fix z assume "is_container x" "filter_dict x = Inr z"
      then show "filter_dict z = Inr z"
        using "2.IH" x(1) by blast
    qed
  qed
  then have "list_all2 (\<lambda>x x'. ?f x = Inr x') xs' xs'"
    by (simp add: list_all2_same)
  then have "sequence (map ?f xs') = Inr xs'"
    by (simp only: sequence_map_Inr)
  then show ?case by (simp add: y mk_list_def)
qed (erule filter_dict_leaf_fixed [rotated], simp)+












section \<open>Properties of \<^verbatim>\<open>safe_serialize\<close>\<close>

lemma sequence_map_all:
  assumes "\<And>x. x \<in> set xs \<Longrightarrow> \<exists>y. f x = Inr y \<and> P y"
  shows "\<exists>ys. sequence (map f xs) = Inr ys \<and> list_all P ys"
  using assms
proof (induction xs)
  case Nil
  then show ?case by simp
next
  case (Cons x xs)
  then obtain y where y: "f x = Inr y" "P y" by auto
  from Cons obtain ys where "sequence (map f xs) = Inr ys" "list_all P ys" by auto
  with y show ?case by simp
qed

lemma stripped_remove_unwanted_items: "stripped (remove_unwanted_items x)"
proof (induction x rule: remove_unwanted_items.induct)
  case (1 kvs)
  have "wanted (k, remove_unwanted_items v) \<and> stripped (remove_unwanted_items v)"
    if "(k, v) \<in> set kvs" "wanted (k, v)" for k v
  proof -
    from that(2) have "remove_unwanted_items v \<noteq> PNone \<and> remove_unwanted_items v \<noteq> PEllipsis"
      by (cases v) (simp_all add: wanted_def)
    with that "1.IH" [of "(k, v)" k v] show ?thesis by (simp add: wanted_def)
  qed
  then show ?case by (auto simp: list_all_iff)
next
  case (2 xs)
  then show ?case by (simp add: list_all_iff)
qed simp_all

lemma remove_unwanted_items_stripped: "stripped x \<Longrightarrow> remove_unwanted_items x = x"
proof (induction x rule: remove_unwanted_items.induct)
  case (1 kvs)
  from "1.prems" have w: "filter wanted kvs = kvs"
    by (auto simp: list_all_iff intro: filter_True)
  have "(case kv of (k, v) \<Rightarrow> (k, remove_unwanted_items v)) = kv" if "kv \<in> set kvs" for kv
  proof -
    obtain k v where kv: "kv = (k, v)" by (cases kv)
    with that have mem: "(k, v) \<in> set kvs" by simp
    with "1.prems" have "wanted (k, v)" "stripped v" by (auto simp: list_all_iff)
    with "1.IH" [of "(k, v)" k v] mem have "remove_unwanted_items v = v" by simp
    then show ?thesis by (simp add: kv)
  qed
  then have "map (\<lambda>(k, v). (k, remove_unwanted_items v)) kvs = kvs"
    by (simp add: map_idI)
  with w show ?case by simp
next
  case (2 xs)
  then have "map remove_unwanted_items xs = xs"
    by (intro map_idI) (simp add: list_all_iff)
  then show ?case by simp
qed simp_all

lemma plain_data_remove_unwanted_items:
  "plain_data x \<Longrightarrow> plain_data (remove_unwanted_items x)"
proof (induction x rule: remove_unwanted_items.induct)
  case (1 kvs)
  have "encodable_key k \<and> plain_data (remove_unwanted_items v)"
    if "(k, v) \<in> set kvs" "wanted (k, v)" for k v
    using that "1.IH" [of "(k, v)" k v] "1.prems" by (auto simp: list_all_iff)
  then show ?case by (auto simp: list_all_iff)
next
  case (2 xs)
  then show ?case by (simp add: list_all_iff)
qed simp_all

lemma json_dumps_default_plain:
  "plain_data x \<Longrightarrow> \<exists>j. json_dumps_default x = Inr j \<and> valid_json j"
proof (induction x rule: json_dumps_default.induct)
  case (6 xs)
  then have "\<exists>js. sequence (map json_dumps_default xs) = Inr js \<and> list_all valid_json js"
    by (intro sequence_map_all) (simp add: list_all_iff)
  then show ?case by (auto simp: json_array_def)
next
  case (7 xs)
  then have "\<exists>js. sequence (map json_dumps_default xs) = Inr js \<and> list_all valid_json js"
    by (intro sequence_map_all) (simp add: list_all_iff)
  then show ?case by (auto simp: json_array_def)
next
  case (8 kvs)
  let ?f = "\<lambda>(k, v). json_item k (json_dumps_default v)"
  have "\<exists>p. ?f kv = Inr p \<and> (case p of (s, j) \<Rightarrow> valid_json j)" if "kv \<in> set kvs" for kv
  proof -
    obtain k v where kv: "kv = (k, v)" by (cases kv)
    with that have mem: "(k, v) \<in> set kvs" by simp
    with "8.prems" have ok: "encodable_key k" "plain_data v" by (auto simp: list_all_iff)
    with "8.IH" [of "(k, v)" k v] mem obtain j where "json_dumps_default v = Inr j" "valid_json j"
      by auto
    with ok(1) show ?thesis
      by (cases "json_key k") (simp_all add: kv json_item_def encodable_key_def)
  qed
  then have "\<exists>ms. sequence (map ?f kvs) = Inr ms \<and> list_all (\<lambda>(s, j). valid_json j) ms"
    by (rule sequence_map_all)
  then show ?case by (auto simp: json_object_def)
next
  case (4 f)
  then show ?case by (cases f) simp_all
qed (simp_all add: default_def)

lemma safe_serialize_list: "safe_serialize (PList xs) = json_array (map safe_serialize xs)"
proof -
  have eq: "safe_serialize = (\<lambda>x. json_dumps_default (remove_unwanted_items x))"
    by (simp add: fun_eq_iff safe_serialize_def)
  show ?thesis unfolding eq by (simp add: comp_def)
qed

lemma json_array_nth:
  assumes "json_array (map f xs) = Inr j"
  shows "\<exists>js. j = JArray js \<and> length js = length xs \<and> (\<forall>i<length xs. f (xs ! i) = Inr (js ! i))"
proof -
  from assms obtain js where js: "j = JArray js" "sequence (map f xs) = Inr js"
    by (auto simp: json_array_def split: sum.splits)
  then have "list_all2 (\<lambda>x y. f x = Inr y) xs js"
    by (simp add: sequence_map_Inr)
  then have "length js = length xs \<and> (\<forall>i<length xs. f (xs ! i) = Inr (js ! i))"
    by (simp add: list_all2_conv_all_nth)
  with js show ?thesis by blast
qed

section \<open>Properties of the registry\<close>

lemma singleton_hit:
  "ao_instances w (class_id c) = Some r \<Longrightarrow> singleton c a w = (Inr r, w)"
  by (simp add: singleton_def)

lemma singleton_miss:
  "ao_instances w (class_id c) = None \<Longrightarrow> init_ok c a \<Longrightarrow>
   singleton c a w =
     (Inr (length (heap w)),
      w\<lparr>heap := heap w @ [\<lparr>inst_class = class_id c, inst_args = a\<rparr>],
        ao_instances := (ao_instances w)(class_id c \<mapsto> length (heap w))\<rparr>)"
  by (simp add: singleton_def construct_def)

lemma singleton_raise:
  "ao_instances w (class_id c) = None \<Longrightarrow> \<not> init_ok c a \<Longrightarrow>
   singleton c a w = (Inl Raised, w)"
  by (simp add: singleton_def construct_def)

lemma conditional_singleton_eq:
  "conditional_singleton c a w =
     (if truthy (fst (kwargs_pop a ''use_singleton'' (PBool True)))
      then singleton c (snd (kwargs_pop a ''use_singleton'' (PBool True))) w
      else construct c (snd (kwargs_pop a ''use_singleton'' (PBool True))) w)"
  by (cases "kwargs_pop a ''use_singleton'' (PBool True)")
     (simp add: conditional_singleton_def singleton_def)

text \<open>A call other than \<^verbatim>\<open>clear_singletons\<close> keeps every entry and every object.\<close>

lemma construct_keeps:
  "ao_instances (snd (construct c a w)) = ao_instances w \<and>
   (\<exists>ys. heap (snd (construct c a w)) = heap w @ ys)"
  by (simp add: construct_def)

lemma singleton_keeps:
  "(ao_instances w k = Some r \<longrightarrow> ao_instances (snd (singleton c a w)) k = Some r) \<and>
   (\<exists>ys. heap (snd (singleton c a w)) = heap w @ ys)"
  by (cases "ao_instances w (class_id c)"; cases "init_ok c a")
     (auto simp: singleton_def construct_def)

lemma step_keeps:
  assumes "cl \<noteq> Clear"
  shows "(ao_instances w k = Some r \<longrightarrow> ao_instances (step cl w) k = Some r) \<and>
   (\<exists>ys. heap (step cl w) = heap w @ ys)"
proof (cases cl)
  case (Singleton c a)
  then show ?thesis using singleton_keeps [of w k r c a] by simp
next
  case (Conditional c a)
  show ?thesis
  proof (cases "truthy (fst (kwargs_pop a ''use_singleton'' (PBool True)))")
    case True
    then show ?thesis
      using singleton_keeps [of w k r c "snd (kwargs_pop a ''use_singleton'' (PBool True))"]
      by (simp add: Conditional conditional_singleton_eq)
  next
    case False
    then show ?thesis
      using construct_keeps [of c "snd (kwargs_pop a ''use_singleton'' (PBool True))" w]
      by (simp add: Conditional conditional_singleton_eq)
  qed
next
  case Clear
  with assms show ?thesis by simp
qed

lemma run_keeps:
  "Clear \<notin> set cs \<Longrightarrow> ao_instances w k = Some r \<Longrightarrow>
   ao_instances (run cs w) k = Some r \<and> (\<exists>ys. heap (run cs w) = heap w @ ys)"
proof (induction cs arbitrary: w)
  case Nil
  then show ?case by (simp add: run_def)
next
  case (Cons cl cs)
  then have ne: "cl \<noteq> Clear" and rest: "Clear \<notin> set cs" by auto
  from step_keeps [OF ne, of w k r] Cons.prems(2)
  obtain ys where s: "ao_instances (step cl w) k = Some r" "heap (step cl w) = heap w @ ys"
    by blast
  from Cons.IH [OF rest s(1)] obtain zs where
    "ao_instances (run cs (step cl w)) k = Some r" "heap (run cs (step cl w)) = heap (step cl w) @ zs"
    by blast
  with s(2) show ?case by (simp add: run_def)
qed



lemma wf_world_construct: "wf_world w \<Longrightarrow> wf_world (snd (construct c a w))"
  by (auto simp: wf_world_def construct_def)

lemma wf_world_singleton: "wf_world w \<Longrightarrow> wf_world (snd (singleton c a w))"
proof (cases "ao_instances w (class_id c)")
  case None
  assume wf: "wf_world w"
  show ?thesis
  proof (cases "init_ok c a")
    case True
    have "r < Suc (length (heap w))"
      if "r \<in> ran ((ao_instances w)(class_id c \<mapsto> length (heap w)))" for r
    proof -
      from that have "r = length (heap w) \<or> r \<in> ran (ao_instances w)"
        by (auto simp: ran_def split: if_splits)
      with wf show ?thesis by (auto simp: wf_world_def)
    qed
    with None True show ?thesis by (simp add: singleton_miss wf_world_def)
  next
    case False
    with None wf show ?thesis by (simp add: singleton_raise)
  qed
next
  case (Some r)
  assume "wf_world w"
  with Some show ?thesis by (simp add: singleton_hit)
qed

lemma wf_world_step: "wf_world w \<Longrightarrow> wf_world (step cl w)"
proof (cases cl)
  case (Singleton c a)
  assume "wf_world w"
  then show ?thesis by (simp add: Singleton wf_world_singleton)
next
  case (Conditional c a)
  assume "wf_world w"
  then show ?thesis
    by (simp add: Conditional conditional_singleton_eq wf_world_singleton wf_world_construct)
next
  case Clear
  then show ?thesis by (simp add: wf_world_def clear_singletons_def)
qed

lemma wf_world_run: "wf_world w \<Longrightarrow> wf_world (run cs w)"
  unfolding run_def by (induction cs arbitrary: w) (simp_all add: wf_world_step)



section \<open>The claims about \<^verbatim>\<open>filter_unjsonable\<close>\<close>




text \<open>
  The leaf branch: a leaf (neither \<^verbatim>\<open>dict\<close> nor \<^verbatim>\<open>list\<close>) that is JSON-encodable is
  returned unchanged, and a leaf that is neither encodable nor a UUID becomes the empty
  string.
\<close>

lemma filter_unjsonable_leaf_jsonable:
  "\<not> is_container x \<Longrightarrow> is_jsonable x = Inr True \<Longrightarrow> filter_unjsonable x = Inr x"
  by (simp add: filter_unjsonable_def filter_dict_leaf_eq)

lemma filter_unjsonable_leaf_other:
  "\<not> is_container x \<Longrightarrow> is_jsonable x = Inr False \<Longrightarrow> \<not> is_uuid x \<Longrightarrow>
   filter_unjsonable x = Inr (PStr [])"
  by (simp add: filter_unjsonable_def filter_dict_leaf_eq)

text \<open>\<^verbatim>\<open>str(UUID('12345678-1234-5678-1234-567812345678'))\<close>\<close>

lemma uuid_str_example:
  "uuid_str (UUID 0x12345678123456781234567812345678) = ''12345678-1234-5678-1234-567812345678''"
  by code_simp

text \<open>
  Claim C2, the UUID leaf. The last branch of \<^verbatim>\<open>filter_dict\<close>,
  \<^verbatim>\<open>return obj if is_jsonable(obj) or isinstance(obj, UUID) else ""\<close>, returns a UUID as
  the UUID object, not as its string form, and the object returned is not
  JSON-encodable. The two sibling branches do convert: a UUID that is a list element
  or a dictionary value is replaced by \<^verbatim>\<open>str(v)\<close>.
\<close>

theorem filter_unjsonable_uuid_leaf:
  "filter_unjsonable (PUuid u) = Inr (PUuid u) \<and>
   is_jsonable (PUuid u) = Inr False \<and>
   filter_unjsonable (PList [PUuid u]) = Inr (PList [PStr (uuid_str u)]) \<and>
   filter_unjsonable (PDict [(k, PUuid u)]) = Inr (PDict [(k, PStr (uuid_str u))])"
  by (simp add: filter_unjsonable_def mk_dict_def mk_list_def dict_entry_def filter_item_def
      is_jsonable_def)

text \<open>
  Claim C6, as the code has it. \<^verbatim>\<open>filter_unjsonable\<close> is idempotent wherever it returns:
  if it returns \<open>y\<close> for \<open>s\<close>, then applied to \<open>y\<close> it returns \<open>y\<close> again, so that
  \<^verbatim>\<open>filter_unjsonable(filter_unjsonable(s)) == filter_unjsonable(s)\<close>. It returns for every
  \<open>s\<close> in which no \<^verbatim>\<open>int\<close> has more than 4300 decimal digits.
\<close>

theorem filter_unjsonable_idempotent:
  "(filter_unjsonable s = Inr y \<longrightarrow> filter_unjsonable y = Inr y) \<and>
   (ints_within_limit s \<longrightarrow>
      (\<exists>z. filter_unjsonable s = Inr z \<and> filter_unjsonable z = Inr z))"
proof -
  have fixed: "filter_unjsonable z = Inr z" if "filter_unjsonable s = Inr z" for z
    using that filter_dict_fixed [of s z] by (simp add: filter_unjsonable_def)
  have "\<exists>z. filter_unjsonable s = Inr z" if "ints_within_limit s"
    using filter_dict_total [OF that] by (simp add: filter_unjsonable_def)
  with fixed show ?thesis by blast
qed

text \<open>
  Claim C6, witness: \<^verbatim>\<open>[{"a": UUID(int=5), "b": (1, ...)}, 2]\<close> is mapped to a value that
  is mapped to itself.
\<close>

theorem filter_unjsonable_idempotent_witness:
  "ints_within_limit
     (PList [PDict [(KStr ''a'', PUuid (UUID 5)), (KStr ''b'', PTuple [PInt 1, PEllipsis])], PInt 2]) \<and>
   (\<exists>z. filter_unjsonable
      (PList [PDict [(KStr ''a'', PUuid (UUID 5)), (KStr ''b'', PTuple [PInt 1, PEllipsis])], PInt 2])
        = Inr z \<and>
      filter_unjsonable z = Inr z)"
proof -
  let ?s = "PList [PDict [(KStr ''a'', PUuid (UUID 5)), (KStr ''b'', PTuple [PInt 1, PEllipsis])], PInt 2]"
  have h: "ints_within_limit ?s" by simp
  with filter_unjsonable_idempotent [of ?s] show ?thesis by blast
qed

text \<open>
  Claim C6, counterexample to the claim for every nested structure:
  \<^verbatim>\<open>filter_unjsonable({"n": 10 ** 4300})\<close> raises \<^verbatim>\<open>ValueError\<close> out of \<^verbatim>\<open>is_jsonable\<close>, so
  there is no value to compare.
\<close>

theorem filter_unjsonable_limit_counterexample:
  "filter_unjsonable (PDict [(KStr ''n'', PInt (10 ^ int_max_str_digits))]) = Inl ValueError"
  by (simp add: filter_unjsonable_def mk_dict_def dict_entry_def filter_item_def is_jsonable_def)

section \<open>The claims about \<^verbatim>\<open>safe_serialize\<close>\<close>

text \<open>
  Claim C3, as the code has it. The strip phase of \<^verbatim>\<open>safe_serialize\<close> removes, from every
  dictionary that is reached from the input through dictionary values and list elements,
  exactly the entries whose value is \<^verbatim>\<open>None\<close>, whose value is \<^verbatim>\<open>Ellipsis\<close>, or whose key
  is the string \<^verbatim>\<open>"self"\<close>: the result has no such entry at any of these depths, an input
  that has none is returned unchanged, every list element is kept, and every value
  that is neither a \<^verbatim>\<open>dict\<close> nor a \<^verbatim>\<open>list\<close> (a tuple too, with all that is in it) passes
  through unmodified. Serializing \<^verbatim>\<open>{"self": obj, "a": None, "b": 1, "c": ...}\<close> gives the
  document \<^verbatim>\<open>{"b": 1}\<close>, whatever \<open>obj\<close> is.
\<close>

theorem remove_unwanted_items_strips:
  "stripped (remove_unwanted_items x) \<and>
   (stripped x \<longrightarrow> remove_unwanted_items x = x) \<and>
   (\<not> is_container x \<longrightarrow> remove_unwanted_items x = x) \<and>
   remove_unwanted_items (PList xs) = PList (map remove_unwanted_items xs) \<and>
   remove_unwanted_items (PDict kvs) =
     PDict (map (\<lambda>(k, v). (k, remove_unwanted_items v))
       (filter (\<lambda>(k, v). \<not> (v = PNone \<or> v = PEllipsis \<or> k = KStr ''self'')) kvs)) \<and>
   safe_serialize (PDict [(KStr ''self'', obj), (KStr ''a'', PNone), (KStr ''b'', PInt 1),
     (KStr ''c'', PEllipsis)]) = Inr (JObject [(''b'', JInt 1)])"
proof -
  have leaf: "remove_unwanted_items x = x" if "\<not> is_container x"
    using that by (cases x) simp_all
  have w: "wanted = (\<lambda>(k, v). \<not> (v = PNone \<or> v = PEllipsis \<or> k = KStr ''self''))"
    by (auto simp: wanted_def fun_eq_iff)
  have dict: "remove_unwanted_items (PDict kvs) =
     PDict (map (\<lambda>(k, v). (k, remove_unwanted_items v))
       (filter (\<lambda>(k, v). \<not> (v = PNone \<or> v = PEllipsis \<or> k = KStr ''self'')) kvs))"
    by (simp add: w)
  have ex: "safe_serialize (PDict [(KStr ''self'', obj), (KStr ''a'', PNone), (KStr ''b'', PInt 1),
     (KStr ''c'', PEllipsis)]) = Inr (JObject [(''b'', JInt 1)])"
    by (simp add: safe_serialize_def wanted_def json_object_def json_item_def)
  show ?thesis
    using stripped_remove_unwanted_items [of x] remove_unwanted_items_stripped [of x] leaf dict ex
    by simp
qed

text \<open>Claim C3, witness: a tuple is a leaf, and a list of dictionaries is stripped.\<close>

theorem remove_unwanted_items_strips_witness:
  "stripped (PTuple [PDict [(KStr ''self'', PInt 1)]]) \<and>
   \<not> is_container (PTuple [PDict [(KStr ''self'', PInt 1)]]) \<and>
   remove_unwanted_items (PTuple [PDict [(KStr ''self'', PInt 1)]]) =
     PTuple [PDict [(KStr ''self'', PInt 1)]] \<and>
   stripped (remove_unwanted_items (PList [PDict [(KStr ''self'', PInt 1), (KStr ''d'', PInt 2)]]))"
  using remove_unwanted_items_strips [of "PTuple [PDict [(KStr ''self'', PInt 1)]]"]
    remove_unwanted_items_strips [of "PList [PDict [(KStr ''self'', PInt 1), (KStr ''d'', PInt 2)]]"]
  by simp

text \<open>
  Claim C3, counterexample to the claim for every mapping at every nesting depth: a
  dictionary inside a tuple keeps its \<^verbatim>\<open>"self"\<close> key and its \<^verbatim>\<open>None\<close> value, since the
  strip phase recurses into \<^verbatim>\<open>dict\<close> and \<^verbatim>\<open>list\<close> only and the encoder writes the tuple
  as an array: \<^verbatim>\<open>safe_serialize({"a": ({"self": 1, "b": None},)})\<close> is
  \<^verbatim>\<open>{"a": [{"self": 1, "b": null}]}\<close>.
\<close>

theorem safe_serialize_tuple_counterexample:
  "safe_serialize (PDict [(KStr ''a'', PTuple [PDict [(KStr ''self'', PInt 1), (KStr ''b'', PNone)]])])
   = Inr (JObject [(''a'', JArray [JObject [(''self'', JInt 1), (''b'', JNull)]])])"
  by (simp add: safe_serialize_def wanted_def json_object_def json_array_def json_item_def)

text \<open>
  Claim C5, as the code has it. For every input composed only of primitives other than
  the non-finite floats and the \<^verbatim>\<open>int\<close>s of more than 4300 decimal digits, of lists and
  tuples, of dictionaries whose keys the encoder accepts (\<^verbatim>\<open>str\<close>, \<^verbatim>\<open>int\<close> of at most 4300
  digits, \<^verbatim>\<open>float\<close>, \<^verbatim>\<open>bool\<close>, \<^verbatim>\<open>None\<close>), and of UUID values, \<^verbatim>\<open>safe_serialize\<close> raises
  nothing and returns a valid JSON document, at every nesting depth.
\<close>

theorem safe_serialize_plain:
  "plain_data x \<Longrightarrow> \<exists>j. safe_serialize x = Inr j \<and> valid_json j"
  unfolding safe_serialize_def Let_def
  by (intro json_dumps_default_plain plain_data_remove_unwanted_items)

text \<open>
  Claim C5, witness: three levels of nesting with a UUID, a tuple, a float, and keys of
  four kinds.
\<close>

theorem safe_serialize_plain_witness:
  "plain_data (PDict [(KStr ''id'', PUuid (UUID 7)), (KInt 3, PList [PTuple [PNone, PBool True, PInt 4],
      PDict [(KNone, PFloat (Finite 3 (-1))), (KFloat (Finite 3 (-1)) ''1.5'', PStr ''x'')]])]) \<and>
   (\<exists>j. safe_serialize (PDict [(KStr ''id'', PUuid (UUID 7)), (KInt 3, PList [PTuple [PNone, PBool True, PInt 4],
      PDict [(KNone, PFloat (Finite 3 (-1))), (KFloat (Finite 3 (-1)) ''1.5'', PStr ''x'')]])]) = Inr j \<and>
      valid_json j)"
  using safe_serialize_plain [of "PDict [(KStr ''id'', PUuid (UUID 7)), (KInt 3, PList [PTuple [PNone, PBool True, PInt 4],
      PDict [(KNone, PFloat (Finite 3 (-1))), (KFloat (Finite 3 (-1)) ''1.5'', PStr ''x'')]])]"]
  by (simp add: encodable_key_def)

text \<open>
  Claim C5, counterexample to the claim for every input of primitives, sequences,
  mappings and UUID values: \<^verbatim>\<open>safe_serialize(float("nan"))\<close> returns \<^verbatim>\<open>NaN\<close>, which is not
  JSON; \<^verbatim>\<open>safe_serialize({UUID(int=1): 1})\<close> raises \<^verbatim>\<open>TypeError\<close>, since the \<^verbatim>\<open>default\<close> hook
  is not applied to keys; and \<^verbatim>\<open>safe_serialize(10 ** 4300)\<close> raises \<^verbatim>\<open>ValueError\<close>, the
  limit of digits of \<^verbatim>\<open>int.__repr__\<close>.
\<close>

theorem safe_serialize_plain_counterexample:
  "safe_serialize (PFloat NaN) = Inr (JFloat NaN) \<and> \<not> valid_json (JFloat NaN) \<and>
   safe_serialize (PDict [(KUuid (UUID 1), PInt 1)]) = Inl TypeError \<and>
   safe_serialize (PInt (10 ^ int_max_str_digits)) = Inl ValueError"
  by (simp add: safe_serialize_def wanted_def json_object_def json_item_def)

text \<open>
  Claim C10. The strip phase removes the sentinels only as dictionary entries, never as
  list elements: it maps a list to the list of its stripped elements and leaves \<^verbatim>\<open>None\<close>
  and \<^verbatim>\<open>Ellipsis\<close> as they are. The encoder writes a list element by element, \<^verbatim>\<open>None\<close> as
  \<^verbatim>\<open>null\<close>; \<^verbatim>\<open>Ellipsis\<close> reaches the fallback, which returns the placeholder naming its
  type, \<^verbatim>\<open>"<<non-serializable: ellipsis>>"\<close>. So whenever \<^verbatim>\<open>safe_serialize\<close> returns for a
  list, the document is an array of the same length with \<^verbatim>\<open>null\<close> at every position of a
  \<^verbatim>\<open>None\<close> and the placeholder string at every position of an \<^verbatim>\<open>Ellipsis\<close>. A tuple is not
  stripped at all and is written element by element in the same way.
\<close>

theorem safe_serialize_sequence_sentinels:
  "remove_unwanted_items (PList xs) = PList (map remove_unwanted_items xs) \<and>
   remove_unwanted_items PNone = PNone \<and>
   remove_unwanted_items PEllipsis = PEllipsis \<and>
   default PEllipsis = Inr (PStr ''<<non-serializable: ellipsis>>'') \<and>
   safe_serialize PNone = Inr JNull \<and>
   safe_serialize PEllipsis = Inr (JString ''<<non-serializable: ellipsis>>'') \<and>
   safe_serialize (PList xs) = json_array (map safe_serialize xs) \<and>
   safe_serialize (PTuple xs) = json_array (map json_dumps_default xs) \<and>
   json_dumps_default PNone = Inr JNull \<and>
   json_dumps_default PEllipsis = Inr (JString ''<<non-serializable: ellipsis>>'') \<and>
   (safe_serialize (PList xs) = Inr j \<longrightarrow>
      (\<exists>js. j = JArray js \<and> length js = length xs \<and>
        (\<forall>i<length xs.
           (xs ! i = PNone \<longrightarrow> js ! i = JNull) \<and>
           (xs ! i = PEllipsis \<longrightarrow> js ! i = JString ''<<non-serializable: ellipsis>>''))))"
proof -
  have d: "default PEllipsis = Inr (PStr ''<<non-serializable: ellipsis>>'')"
    by (simp add: default_def)
  have n: "safe_serialize PNone = Inr JNull"
    by (simp add: safe_serialize_def)
  have e: "safe_serialize PEllipsis = Inr (JString ''<<non-serializable: ellipsis>>'')"
    by (simp add: safe_serialize_def d)
  have p: "\<exists>js. j = JArray js \<and> length js = length xs \<and>
        (\<forall>i<length xs.
           (xs ! i = PNone \<longrightarrow> js ! i = JNull) \<and>
           (xs ! i = PEllipsis \<longrightarrow> js ! i = JString ''<<non-serializable: ellipsis>>''))"
    if "safe_serialize (PList xs) = Inr j"
  proof -
    from that have "json_array (map safe_serialize xs) = Inr j"
      by (simp only: safe_serialize_list)
    then obtain js where js: "j = JArray js" "length js = length xs"
      "\<forall>i<length xs. safe_serialize (xs ! i) = Inr (js ! i)"
      using json_array_nth by blast
    have "(xs ! i = PNone \<longrightarrow> js ! i = JNull) \<and>
           (xs ! i = PEllipsis \<longrightarrow> js ! i = JString ''<<non-serializable: ellipsis>>'')"
      if "i < length xs" for i
      using js(3) that n e by (metis sum.inject(2))
    with js show ?thesis by blast
  qed
  have t: "safe_serialize (PTuple xs) = json_array (map json_dumps_default xs)"
    by (simp add: safe_serialize_def)
  show ?thesis using d n e p t safe_serialize_list [of xs] by simp
qed

text \<open>Claim C10, witness: \<^verbatim>\<open>safe_serialize([None, ..., 1])\<close>.\<close>

theorem safe_serialize_sequence_sentinels_witness:
  "safe_serialize (PList [PNone, PEllipsis, PInt 1]) =
     Inr (JArray [JNull, JString ''<<non-serializable: ellipsis>>'', JInt 1]) \<and>
   (\<exists>js. JArray [JNull, JString ''<<non-serializable: ellipsis>>'', JInt 1] = JArray js \<and>
      length js = 3 \<and> js ! 0 = JNull \<and> js ! 1 = JString ''<<non-serializable: ellipsis>>'')"
proof -
  have s: "safe_serialize (PList [PNone, PEllipsis, PInt 1]) =
     Inr (JArray [JNull, JString ''<<non-serializable: ellipsis>>'', JInt 1])"
    by (simp add: safe_serialize_def default_def json_array_def)
  from safe_serialize_sequence_sentinels [of "[PNone, PEllipsis, PInt 1]"
      "JArray [JNull, JString ''<<non-serializable: ellipsis>>'', JInt 1]"] s
  have "\<exists>js. JArray [JNull, JString ''<<non-serializable: ellipsis>>'', JInt 1] = JArray js \<and>
      length js = 3 \<and> js ! 0 = JNull \<and> js ! 1 = JString ''<<non-serializable: ellipsis>>''"
    by simp
  with s show ?thesis by simp
qed

text \<open>
  Claim C4. The fallback of the encoder returns \<^verbatim>\<open>str(value)\<close> for a UUID. For any other
  value it calls the first method that the value has among \<^verbatim>\<open>model_dump_json\<close>,
  \<^verbatim>\<open>to_json\<close>, \<^verbatim>\<open>json\<close>, \<^verbatim>\<open>to_dict\<close>, \<^verbatim>\<open>dict\<close>, in this order, so that a value with both
  \<^verbatim>\<open>to_dict\<close> and \<^verbatim>\<open>dict\<close> (and none of the first three) is serialized by \<^verbatim>\<open>to_dict\<close>; when
  it has none of the five, the fallback returns exactly
  \<^verbatim>\<open>"<<non-serializable: {type(o).__qualname__}>>"\<close>. The encoder asks the fallback about
  every object that is not of a native type and encodes what the fallback returns.
\<close>

theorem default_priority:
  "default (PUuid u) = Inr (PStr (uuid_str u)) \<and>
   (\<not> is_uuid v \<longrightarrow>
      default v =
        (case find (hasattr v) [''model_dump_json'', ''to_json'', ''json'', ''to_dict'', ''dict''] of
           Some name \<Rightarrow> call_method v name
         | None \<Rightarrow> Inr (PStr (''<<non-serializable: '' @ qualname v @ ''>>'')))) \<and>
   (\<not> is_uuid v \<longrightarrow> \<not> hasattr v ''model_dump_json'' \<longrightarrow> \<not> hasattr v ''to_json'' \<longrightarrow>
      \<not> hasattr v ''json'' \<longrightarrow> hasattr v ''to_dict'' \<longrightarrow> default v = call_method v ''to_dict'') \<and>
   (\<not> is_uuid v \<longrightarrow> \<not> hasattr v ''model_dump_json'' \<longrightarrow> \<not> hasattr v ''to_json'' \<longrightarrow>
      \<not> hasattr v ''json'' \<longrightarrow> \<not> hasattr v ''to_dict'' \<longrightarrow> \<not> hasattr v ''dict'' \<longrightarrow>
      default v = Inr (PStr (''<<non-serializable: '' @ qualname v @ ''>>''))) \<and>
   json_dumps_default (PObj q ms) =
     (case default (PObj q ms) of Inl e \<Rightarrow> Inl e | Inr r \<Rightarrow> json_dumps_default r)"
  by (simp add: default_def)

text \<open>
  Claim C4, witness: an object with \<^verbatim>\<open>dict\<close> and \<^verbatim>\<open>to_dict\<close> is serialized by \<^verbatim>\<open>to_dict\<close>, and
  an object of class \<^verbatim>\<open>MyClassName\<close> with none of the five methods gives the placeholder.
\<close>

theorem default_priority_witness:
  "\<not> is_uuid (PObj ''Foo'' [(''dict'', Returns (PStr ''d'')), (''to_dict'', Returns (PStr ''t''))]) \<and>
   hasattr (PObj ''Foo'' [(''dict'', Returns (PStr ''d'')), (''to_dict'', Returns (PStr ''t''))]) ''to_dict'' \<and>
   hasattr (PObj ''Foo'' [(''dict'', Returns (PStr ''d'')), (''to_dict'', Returns (PStr ''t''))]) ''dict'' \<and>
   default (PObj ''Foo'' [(''dict'', Returns (PStr ''d'')), (''to_dict'', Returns (PStr ''t''))]) =
     Inr (PStr ''t'') \<and>
   \<not> is_uuid (PObj ''MyClassName'' []) \<and>
   default (PObj ''MyClassName'' []) = Inr (PStr ''<<non-serializable: MyClassName>>'')"
  using default_priority [of _ "PObj ''Foo'' [(''dict'', Returns (PStr ''d'')), (''to_dict'', Returns (PStr ''t''))]"]
    default_priority [of _ "PObj ''MyClassName'' []"]
  by simp

section \<open>The claims about the instance registry\<close>

text \<open>
  Claim C7. When the registry has no entry for the class \<open>C\<close> and the constructor of
  \<open>C\<close> returns on the arguments of the call, \<^verbatim>\<open>singleton(C)(*a1)\<close> constructs one
  instance of \<open>C\<close> with these arguments (one new object on the heap) and returns it.
  Every later call \<^verbatim>\<open>singleton(C)(*a2)\<close> returns this very object, whatever \<open>a2\<close> is, also
  after any other calls of \<^verbatim>\<open>singleton\<close> and \<^verbatim>\<open>conditional_singleton\<close> on any classes, as
  long as \<^verbatim>\<open>clear_singletons\<close> is not called; the object is still the one built with
  \<open>a1\<close>.
\<close>

theorem singleton_same_instance:
  assumes "ao_instances w (class_id C) = None" and "init_ok C a1"
  shows "\<exists>w1. singleton C a1 w = (Inr (length (heap w)), w1) \<and>
     heap w1 = heap w @ [\<lparr>inst_class = class_id C, inst_args = a1\<rparr>] \<and>
     singleton C a2 w1 = (Inr (length (heap w)), w1) \<and>
     (Clear \<notin> set cs \<longrightarrow>
        singleton C a2 (run cs w1) = (Inr (length (heap w)), run cs w1) \<and>
        heap (run cs w1) ! length (heap w) = \<lparr>inst_class = class_id C, inst_args = a1\<rparr>)"
proof -
  let ?r = "length (heap w)"
  let ?w1 = "w\<lparr>heap := heap w @ [\<lparr>inst_class = class_id C, inst_args = a1\<rparr>],
        ao_instances := (ao_instances w)(class_id C \<mapsto> ?r)\<rparr>"
  have s1: "singleton C a1 w = (Inr ?r, ?w1)"
    using assms by (rule singleton_miss)
  have reg: "ao_instances ?w1 (class_id C) = Some ?r" by simp
  have s2: "singleton C a2 ?w1 = (Inr ?r, ?w1)"
    using reg by (rule singleton_hit)
  have later: "singleton C a2 (run cs ?w1) = (Inr ?r, run cs ?w1) \<and>
        heap (run cs ?w1) ! ?r = \<lparr>inst_class = class_id C, inst_args = a1\<rparr>"
    if "Clear \<notin> set cs"
  proof -
    from run_keeps [OF that reg] obtain ys where
      k: "ao_instances (run cs ?w1) (class_id C) = Some ?r" "heap (run cs ?w1) = heap ?w1 @ ys"
      by blast
    from k(1) have "singleton C a2 (run cs ?w1) = (Inr ?r, run cs ?w1)"
      by (rule singleton_hit)
    moreover from k(2) have "heap (run cs ?w1) ! ?r = \<lparr>inst_class = class_id C, inst_args = a1\<rparr>"
      by (simp add: nth_append)
    ultimately show ?thesis by simp
  qed
  show ?thesis
    by (rule exI [of _ ?w1]) (use s1 s2 later in simp)
qed

text \<open>
  Claim C7, witness: \<^verbatim>\<open>singleton(C)(1)\<close> followed by \<^verbatim>\<open>singleton(C)(2)\<close> returns object 0 both
  times, built with the argument 1, also after calls on another class in between.
\<close>

theorem singleton_same_instance_witness:
  "let C = \<lparr>class_id = 1, init_ok = (\<lambda>a. True)\<rparr>;
       D = \<lparr>class_id = 2, init_ok = (\<lambda>a. True)\<rparr>;
       a1 = \<lparr>pos_args = [PInt 1], kw_args = []\<rparr>;
       a2 = \<lparr>pos_args = [PInt 2], kw_args = []\<rparr>;
       cs = [Singleton D a2, Conditional C a2]
   in ao_instances init_world (class_id C) = None \<and> init_ok C a1 \<and> Clear \<notin> set cs \<and>
      (\<exists>w1. singleton C a1 init_world = (Inr 0, w1) \<and>
         singleton C a2 w1 = (Inr 0, w1) \<and>
         singleton C a2 (run cs w1) = (Inr 0, run cs w1) \<and>
         heap (run cs w1) ! 0 = \<lparr>inst_class = 1, inst_args = a1\<rparr>)"
  unfolding Let_def
  using singleton_same_instance [of init_world "\<lparr>class_id = 1, init_ok = (\<lambda>a. True)\<rparr>"
      "\<lparr>pos_args = [PInt 1], kw_args = []\<rparr>" "\<lparr>pos_args = [PInt 2], kw_args = []\<rparr>"
      "[Singleton \<lparr>class_id = 2, init_ok = (\<lambda>a. True)\<rparr> \<lparr>pos_args = [PInt 2], kw_args = []\<rparr>,
        Conditional \<lparr>class_id = 1, init_ok = (\<lambda>a. True)\<rparr> \<lparr>pos_args = [PInt 2], kw_args = []\<rparr>]"]
  by (simp add: init_world_def) blast





end
